theory Spec2Isabelle
  imports Main
begin

section \<open>The bookings schema\<close>

text \<open>
  The storage layer of the booking system is the SQL schema: the tables \<open>users\<close>,
  \<open>classrooms\<close> and \<open>bookings\<close>, the function \<open>check_booking_conflicts\<close>, the trigger
  function \<open>prevent_booking_conflicts\<close> that runs before every insert or update of a
  bookings row, and the row-level security policies. A \<open>DATE\<close> is a day number, a
  \<open>TIME\<close> is a number of microseconds since midnight (from 00:00:00 to 24:00:00).
  A nullable column is an \<open>option\<close>.
\<close>

type_synonym date = int
type_synonym time = nat

text \<open>
  The columns of \<open>bookings\<close> that the constraints, the trigger and the policies read.
  The columns \<open>subject\<close>, \<open>description\<close>, \<open>created_at\<close> and \<open>updated_at\<close> are read by
  none of them and are left out. The column \<open>id\<close> is named \<open>id_booking\<close> here.
\<close>

record booking =
  id_booking :: int
  classroom_id :: int
  user_id :: int
  booking_date :: date
  start_time :: time
  end_time :: time
  is_recurring :: bool
  recurring_pattern :: "string option"
  recurring_end_date :: "date option"
  status :: "string option"

type_synonym bookings = "booking list"

text \<open>The time of day \<open>hh:mm\<close> as a \<open>TIME\<close> value, and 24:00:00, the largest one.\<close>

definition hm :: "nat \<Rightarrow> nat \<Rightarrow> time" where
  "hm h m = (h * 60 + m) * 60000000"

definition day_length :: nat where
  "day_length = 86400000000"

text \<open>A plain (non-recurring) row, for writing concrete tables.\<close>

definition mk_booking :: "int \<Rightarrow> int \<Rightarrow> int \<Rightarrow> date \<Rightarrow> time \<Rightarrow> time \<Rightarrow> string \<Rightarrow> booking" where
  "mk_booking i c u d s e st =
     \<lparr>id_booking = i, classroom_id = c, user_id = u, booking_date = d,
      start_time = s, end_time = e, is_recurring = False,
      recurring_pattern = None, recurring_end_date = None, status = Some st\<rparr>"

subsection \<open>The conflict check\<close>

text \<open>
  The four clauses of \<open>check_booking_conflicts\<close>, in the order of the source:
  the new booking starts during the existing one, ends during it, contains it,
  or is contained in it. \<open>start_t\<close> and \<open>end_t\<close> are the columns of the existing row.
\<close>

definition time_clauses :: "time \<Rightarrow> time \<Rightarrow> time \<Rightarrow> time \<Rightarrow> bool" where
  "time_clauses start_t end_t p_start_time p_end_time =
     ((start_t \<le> p_start_time \<and> end_t > p_start_time) \<or>
      (start_t < p_end_time \<and> end_t \<ge> p_end_time) \<or>
      (start_t \<ge> p_start_time \<and> end_t \<le> p_end_time) \<or>
      (start_t \<le> p_start_time \<and> end_t \<ge> p_end_time))"

text \<open>
  The \<open>WHERE\<close> clause for one row. A \<open>NULL\<close> status is not \<open>'confirmed'\<close>:
  the comparison is then \<open>NULL\<close> and the row is not selected.
\<close>

definition conflict_row :: "int \<Rightarrow> date \<Rightarrow> time \<Rightarrow> time \<Rightarrow> int option \<Rightarrow> booking \<Rightarrow> bool" where
  "conflict_row p_classroom_id p_booking_date p_start_time p_end_time p_exclude_booking_id r =
     (classroom_id r = p_classroom_id \<and>
      booking_date r = p_booking_date \<and>
      status r = Some ''confirmed'' \<and>
      (p_exclude_booking_id = None \<or> Some (id_booking r) \<noteq> p_exclude_booking_id) \<and>
      time_clauses (start_time r) (end_time r) p_start_time p_end_time)"

definition check_booking_conflicts ::
  "bookings \<Rightarrow> int \<Rightarrow> date \<Rightarrow> time \<Rightarrow> time \<Rightarrow> int option \<Rightarrow> bool" where
  "check_booking_conflicts tbl p_classroom_id p_booking_date p_start_time p_end_time
       p_exclude_booking_id =
     (\<exists>r \<in> set tbl. conflict_row p_classroom_id p_booking_date p_start_time p_end_time
                        p_exclude_booking_id r)"

subsection \<open>The trigger and the row operations\<close>

text \<open>
  The errors a statement raises: the exception of the trigger, a violated primary or
  foreign key, and \<open>infinite recursion detected in policy\<close> (SQLSTATE 42P17).
  The row operations of this subsection are those of a role that row-level security does
  not apply to, such as the owner of the tables; the policies come further down.
\<close>

datatype error =
    Booking_conflict
  | Unique_violation
  | Foreign_key_violation
  | Infinite_recursion

text \<open>
  The trigger function: it raises \<open>Booking conflicts with existing reservation\<close>
  when the check, run with the new row's own id excluded, finds a row; otherwise it
  returns the new row.
\<close>

definition prevent_booking_conflicts :: "bookings \<Rightarrow> booking \<Rightarrow> error + booking" where
  "prevent_booking_conflicts tbl new =
     (if check_booking_conflicts tbl (classroom_id new) (booking_date new)
           (start_time new) (end_time new) (Some (id_booking new))
      then Inl Booking_conflict
      else Inr new)"

text \<open>
  \<open>INSERT INTO bookings\<close> of one row: the trigger fires before the insert, then the
  primary key is checked, then the row is stored.
\<close>

definition insert_booking :: "bookings \<Rightarrow> booking \<Rightarrow> error + bookings" where
  "insert_booking tbl new =
     (case prevent_booking_conflicts tbl new of
        Inl e \<Rightarrow> Inl e
      | Inr n \<Rightarrow>
          if id_booking n \<in> set (map id_booking tbl) then Inl Unique_violation
          else Inr (tbl @ [n]))"

text \<open>
  \<open>UPDATE bookings SET ... WHERE id = k\<close>, where \<open>new\<close> is the row after the
  assignments. With no row of that id nothing is updated and no trigger fires.
  Otherwise the trigger fires before the update, then the primary key is checked
  (the update may have changed the id), then the row is replaced.
\<close>

definition update_booking :: "bookings \<Rightarrow> int \<Rightarrow> booking \<Rightarrow> error + bookings" where
  "update_booking tbl k new =
     (if k \<notin> set (map id_booking tbl) then Inr tbl
      else case prevent_booking_conflicts tbl new of
        Inl e \<Rightarrow> Inl e
      | Inr n \<Rightarrow>
          if id_booking n \<noteq> k \<and> id_booking n \<in> set (map id_booking tbl)
          then Inl Unique_violation
          else Inr (map (\<lambda>r. if id_booking r = k then n else r) tbl))"

text \<open>\<open>DELETE FROM bookings WHERE id = k\<close>: no trigger is declared for it.\<close>

definition delete_booking :: "bookings \<Rightarrow> int \<Rightarrow> bookings" where
  "delete_booking tbl k = filter (\<lambda>r. id_booking r \<noteq> k) tbl"

text \<open>
  A sequence of statements, each committed on its own: a statement that raises
  is rolled back and leaves the table as it was.
\<close>

datatype statement = Insert booking | Update int booking | Delete int

fun exec_statement :: "bookings \<Rightarrow> statement \<Rightarrow> error + bookings" where
  "exec_statement tbl (Insert new) = insert_booking tbl new"
| "exec_statement tbl (Update k new) = update_booking tbl k new"
| "exec_statement tbl (Delete k) = Inr (delete_booking tbl k)"

fun run :: "bookings \<Rightarrow> statement list \<Rightarrow> bookings" where
  "run tbl [] = tbl"
| "run tbl (st # sts) =
     (case exec_statement tbl st of
        Inl e \<Rightarrow> run tbl sts
      | Inr tbl' \<Rightarrow> run tbl' sts)"

subsection \<open>Intervals\<close>

text \<open>
  The half-open rule in the words of the specification: \<open>[s1,e1)\<close> and \<open>[s2,e2)\<close>
  overlap iff \<open>s1 < e2\<close> and \<open>s2 < e1\<close>.
\<close>

definition overlaps :: "'a::linorder \<times> 'a \<Rightarrow> 'a \<times> 'a \<Rightarrow> bool" where
  "overlaps i j = (fst i < snd j \<and> fst j < snd i)"

text \<open>
  The instant that a date and a time of day denote, in microseconds, and the
  interval of instants that a row occupies.
\<close>

definition instant :: "date \<Rightarrow> time \<Rightarrow> int" where
  "instant d t = d * int day_length + int t"

definition interval_of :: "booking \<Rightarrow> int \<times> int" where
  "interval_of r = (instant (booking_date r) (start_time r), instant (booking_date r) (end_time r))"

definition is_confirmed :: "booking \<Rightarrow> bool" where
  "is_confirmed r = (status r = Some ''confirmed'')"

text \<open>The values of a row's \<open>TIME\<close> columns are times of day.\<close>

definition valid_times :: "booking \<Rightarrow> bool" where
  "valid_times r = (start_time r \<le> day_length \<and> end_time r \<le> day_length)"

text \<open>
  The invariant: the primary key is unique, and any two confirmed rows of one
  classroom occupy intervals that do not overlap.
\<close>

definition confirmed_disjoint :: "bookings \<Rightarrow> bool" where
  "confirmed_disjoint tbl =
     (\<forall>r1 \<in> set tbl. \<forall>r2 \<in> set tbl.
        id_booking r1 \<noteq> id_booking r2 \<and> is_confirmed r1 \<and> is_confirmed r2 \<and>
        classroom_id r1 = classroom_id r2
        \<longrightarrow> \<not> overlaps (interval_of r1) (interval_of r2))"

definition store_ok :: "bookings \<Rightarrow> bool" where
  "store_ok tbl =
     (distinct (map id_booking tbl) \<and> (\<forall>r \<in> set tbl. valid_times r) \<and> confirmed_disjoint tbl)"

fun row_of :: "statement \<Rightarrow> booking option" where
  "row_of (Insert new) = Some new"
| "row_of (Update k new) = Some new"
| "row_of (Delete k) = None"

definition valid_statement :: "statement \<Rightarrow> bool" where
  "valid_statement st = (case row_of st of None \<Rightarrow> True | Some r \<Rightarrow> valid_times r)"

subsection \<open>Predicates of the statements\<close>

text \<open>
  A new row would introduce an overlap when it is confirmed and the table holds a
  confirmed row of another id, for the same classroom, whose interval overlaps its own.
\<close>

definition introduces_overlap :: "bookings \<Rightarrow> booking \<Rightarrow> bool" where
  "introduces_overlap tbl new =
     (is_confirmed new \<and>
      (\<exists>r \<in> set tbl. id_booking r \<noteq> id_booking new \<and> is_confirmed r \<and>
          classroom_id r = classroom_id new \<and> overlaps (interval_of r) (interval_of new)))"

text \<open>Classroom 7 on day 100, booked from 9:00 to 10:00 and from 10:00 to 11:00.\<close>

definition room_day :: bookings where
  "room_day = [mk_booking 1 7 2 100 (hm 9 0) (hm 10 0) ''confirmed'',
               mk_booking 2 7 3 100 (hm 10 0) (hm 11 0) ''confirmed'']"

definition day_statements :: "statement list" where
  "day_statements =
     [Insert (mk_booking 3 7 2 100 (hm 9 30) (hm 10 30) ''confirmed''),
      Update 2 (mk_booking 2 7 3 100 (hm 9 30) (hm 11 0) ''confirmed''),
      Insert (mk_booking 4 7 3 101 (hm 9 30) (hm 10 30) ''confirmed''),
      Delete 1,
      Update 2 (mk_booking 2 7 3 100 (hm 9 30) (hm 11 0) ''confirmed'')]"

text \<open>
  The part of the check's \<open>WHERE\<close> clause that compares the two rows' classroom, date
  and times, and the whole clause against a new row, whose own id is excluded.
\<close>

definition clash :: "booking \<Rightarrow> booking \<Rightarrow> bool" where
  "clash r new =
     (classroom_id r = classroom_id new \<and> booking_date r = booking_date new \<and>
      time_clauses (start_time r) (end_time r) (start_time new) (end_time new))"

definition clashing_row :: "booking \<Rightarrow> booking \<Rightarrow> bool" where
  "clashing_row new r =
     (id_booking r \<noteq> id_booking new \<and> status r = Some ''confirmed'' \<and> clash r new)"

text \<open>
  What the trigger maintains, in its own terms: no two confirmed rows of different ids
  pass the test against each other.
\<close>

definition trigger_inv :: "bookings \<Rightarrow> bool" where
  "trigger_inv tbl =
     (distinct (map id_booking tbl) \<and>
      (\<forall>r1 \<in> set tbl. \<forall>r2 \<in> set tbl.
         id_booking r1 \<noteq> id_booking r2 \<and> is_confirmed r1 \<and> is_confirmed r2 \<longrightarrow> \<not> clash r1 r2))"

text \<open>A cancelled row from 9:30 to 10:30, in classroom 7 on day 100.\<close>

definition cancelled_overlap :: booking where
  "cancelled_overlap = mk_booking 3 7 2 100 (hm 9 30) (hm 10 30) ''cancelled''"

text \<open>A row whose times form an interval within the day: \<open>start < end \<le> 24:00\<close>.\<close>

definition proper_interval :: "booking \<Rightarrow> bool" where
  "proper_interval r = (start_time r < end_time r \<and> end_time r \<le> day_length)"

text \<open>The table after \<open>UPDATE bookings SET status = st WHERE id = k\<close>.\<close>

definition set_status :: "bookings \<Rightarrow> int \<Rightarrow> string option \<Rightarrow> bookings" where
  "set_status tbl k st = map (\<lambda>x. if id_booking x = k then x\<lparr>status := st\<rparr> else x) tbl"

text \<open>Booking 1 of \<open>room_day\<close>, shrunk from 9:00-10:00 to 9:15-9:45.\<close>

definition shrunk :: booking where
  "shrunk = mk_booking 1 7 2 100 (hm 9 15) (hm 9 45) ''confirmed''"

text \<open>
  Classroom 7 on day 100: booking 1 from 10:00 to 12:00, booking 2 from 9:30 to 9:00,
  which ends before it starts, and booking 1 moved to 9:15-11:00.
\<close>

definition late_morning :: booking where
  "late_morning = mk_booking 1 7 2 100 (hm 10 0) (hm 12 0) ''confirmed''"

definition reversed :: booking where
  "reversed = mk_booking 2 7 3 100 (hm 9 30) (hm 9 0) ''confirmed''"

definition widened :: booking where
  "widened = mk_booking 1 7 2 100 (hm 9 15) (hm 11 0) ''confirmed''"

text \<open>Two rows for the same classroom, date and times.\<close>

definition same_slot :: "booking \<Rightarrow> booking \<Rightarrow> bool" where
  "same_slot new r =
     (classroom_id new = classroom_id r \<and> booking_date new = booking_date r \<and>
      start_time new = start_time r \<and> end_time new = end_time r)"

text \<open>The two inserts that build \<open>room_day\<close> from the empty table.\<close>

definition morning :: "statement list" where
  "morning = [Insert (mk_booking 1 7 2 100 (hm 9 0) (hm 10 0) ''confirmed''),
              Insert (mk_booking 2 7 3 100 (hm 10 0) (hm 11 0) ''confirmed'')]"

subsection \<open>Users and classrooms\<close>

text \<open>
  The columns of \<open>users\<close> and \<open>classrooms\<close> that the policies and the foreign keys
  read. \<open>is_admin\<close> and \<open>is_active\<close> are declared with a default and without
  \<open>NOT NULL\<close>. The \<open>id\<close> columns are named \<open>id_user\<close> and \<open>id_classroom\<close>.
\<close>

record user =
  id_user :: int
  is_active_user :: "bool option"
  is_admin :: "bool option"

record classroom =
  id_classroom :: int
  is_active :: "bool option"

record database =
  users :: "user list"
  classrooms :: "classroom list"
  bookings :: "booking list"

text \<open>
  An administrator (user 1) and two members (users 2 and 3), who own the two bookings of
  \<open>room_day\<close>.
\<close>

definition staff :: "user list" where
  "staff = [\<lparr>id_user = 1, is_active_user = Some True, is_admin = Some True\<rparr>,
            \<lparr>id_user = 2, is_active_user = Some True, is_admin = Some False\<rparr>,
            \<lparr>id_user = 3, is_active_user = Some True, is_admin = Some False\<rparr>]"

subsection \<open>Row-level security\<close>

text \<open>
  The schema enables row-level security on the three tables and declares twelve
  policies. A policy belongs to a table and to a command (\<open>FOR SELECT\<close>, \<open>FOR INSERT\<close>,
  \<open>FOR UPDATE\<close>, \<open>FOR DELETE\<close> or \<open>FOR ALL\<close>); \<open>pol_selects_from\<close> lists the tables
  that the subqueries of its expression select from. The four policies for admins hold
  \<open>EXISTS (SELECT 1 FROM users WHERE ...)\<close>; the others compare \<open>auth.uid()\<close> with a
  column of the row, or read \<open>is_active\<close>, and hold no subquery.
\<close>

datatype relation = Users | Classrooms | Bookings

datatype policy_command = For_select | For_insert | For_update | For_delete | For_all

datatype statement_kind = Select_stmt | Insert_stmt | Update_stmt | Delete_stmt

record policy =
  pol_name :: string
  pol_table :: relation
  pol_command :: policy_command
  pol_selects_from :: "relation list"

definition schema_policies :: "policy list" where
  "schema_policies =
     [\<lparr>pol_name = ''Users can view their own profile'', pol_table = Users,
       pol_command = For_select, pol_selects_from = []\<rparr>,
      \<lparr>pol_name = ''Users can update their own profile'', pol_table = Users,
       pol_command = For_update, pol_selects_from = []\<rparr>,
      \<lparr>pol_name = ''Admins can view all users'', pol_table = Users,
       pol_command = For_select, pol_selects_from = [Users]\<rparr>,
      \<lparr>pol_name = ''Admins can update all users'', pol_table = Users,
       pol_command = For_update, pol_selects_from = [Users]\<rparr>,
      \<lparr>pol_name = ''Anyone can view active classrooms'', pol_table = Classrooms,
       pol_command = For_select, pol_selects_from = []\<rparr>,
      \<lparr>pol_name = ''Admins can manage classrooms'', pol_table = Classrooms,
       pol_command = For_all, pol_selects_from = [Users]\<rparr>,
      \<lparr>pol_name = ''Users can view their own bookings'', pol_table = Bookings,
       pol_command = For_select, pol_selects_from = []\<rparr>,
      \<lparr>pol_name = ''Users can create their own bookings'', pol_table = Bookings,
       pol_command = For_insert, pol_selects_from = []\<rparr>,
      \<lparr>pol_name = ''Users can update their own bookings'', pol_table = Bookings,
       pol_command = For_update, pol_selects_from = []\<rparr>,
      \<lparr>pol_name = ''Users can delete their own bookings'', pol_table = Bookings,
       pol_command = For_delete, pol_selects_from = []\<rparr>,
      \<lparr>pol_name = ''Admins can view all bookings'', pol_table = Bookings,
       pol_command = For_select, pol_selects_from = [Users]\<rparr>,
      \<lparr>pol_name = ''Admins can manage all bookings'', pol_table = Bookings,
       pol_command = For_all, pol_selects_from = [Users]\<rparr>]"

text \<open>
  The policies that a statement on a table brings in: those declared for its command and
  those declared \<open>FOR ALL\<close>; an \<open>UPDATE\<close> or \<open>DELETE\<close> with a \<open>WHERE\<close> clause reads
  the table too, which brings in the policies for \<open>SELECT\<close>.
\<close>

fun policy_applies :: "statement_kind \<Rightarrow> policy_command \<Rightarrow> bool" where
  "policy_applies kind For_all = True"
| "policy_applies Select_stmt c = (c = For_select)"
| "policy_applies Insert_stmt c = (c = For_insert)"
| "policy_applies Update_stmt c = (c = For_update \<or> c = For_select)"
| "policy_applies Delete_stmt c = (c = For_delete \<or> c = For_select)"

definition sublink_relations :: "policy list \<Rightarrow> statement_kind \<Rightarrow> relation \<Rightarrow> relation list" where
  "sublink_relations ps kind rel =
     concat (map pol_selects_from
       (filter (\<lambda>p. pol_table p = rel \<and> policy_applies kind (pol_command p)) ps))"

text \<open>
  Before a statement of a role under row-level security runs, the policies of each table
  it names are added to it, and so are, in turn, the policies of the tables that their
  subqueries select from. \<open>active\<close> holds the tables whose policies are being added. A
  table that has policies with subqueries and is met again while its own policies are
  being added ends the statement with the error 42P17.
\<close>

function policy_recursion ::
  "policy list \<Rightarrow> relation list \<Rightarrow> statement_kind \<Rightarrow> relation \<Rightarrow> bool" where
  "policy_recursion ps active kind rel =
     (if sublink_relations ps kind rel = [] then False
      else if rel \<in> set active then True
      else \<exists>r \<in> set (sublink_relations ps kind rel).
             policy_recursion ps (rel # active) Select_stmt r)"
  by pat_completeness auto
termination
proof (relation "measure (\<lambda>(ps, active, kind, rel). card (UNIV - set active))")
  show "wf (measure (\<lambda>(ps, active, kind, rel). card (UNIV - set active)))"
    by simp
next
  fix ps :: "policy list" and active :: "relation list" and kind :: statement_kind
    and rel r :: relation
  assume "rel \<notin> set active"
  then have less: "UNIV - set (rel # active) \<subset> UNIV - set active"
    by auto
  have all: "(UNIV :: relation set) = {Users, Classrooms, Bookings}"
    by (auto intro: relation.exhaust)
  have "finite (UNIV :: relation set)"
    by (subst all) simp
  then have "finite (UNIV - set active)"
    by (rule finite_subset[rotated]) simp
  with less have "card (UNIV - set (rel # active)) < card (UNIV - set active)"
    by (intro psubset_card_mono)
  then show "((ps, rel # active, Select_stmt, r), (ps, active, kind, rel))
      \<in> measure (\<lambda>(ps, active, kind, rel). card (UNIV - set active))"
    by simp
qed

text \<open>
  The tables enable row-level security and do not force it: the policies apply to every
  role but the owner of the tables (and roles that bypass row-level security). The
  result is the error that ends the statement before it reads a row, or \<open>None\<close> when
  the statement goes on to run.
\<close>

datatype role = Table_owner | Rls_role

definition rewrite_error ::
  "policy list \<Rightarrow> role \<Rightarrow> statement_kind \<Rightarrow> relation \<Rightarrow> error option" where
  "rewrite_error ps role kind rel =
     (case role of
        Table_owner \<Rightarrow> None
      | Rls_role \<Rightarrow> if policy_recursion ps [] kind rel then Some Infinite_recursion else None)"

subsection \<open>Classrooms\<close>

text \<open>
  \<open>INSERT INTO bookings\<close> in the whole database: after the trigger and the primary
  key, the foreign keys to \<open>classrooms\<close> and \<open>users\<close> are checked. Neither they nor
  the trigger read \<open>is_active\<close>.
\<close>

definition db_insert_booking :: "database \<Rightarrow> booking \<Rightarrow> error + database" where
  "db_insert_booking db new =
     (case insert_booking (bookings db) new of
        Inl e \<Rightarrow> Inl e
      | Inr tbl \<Rightarrow>
          if classroom_id new \<in> set (map id_classroom (classrooms db)) \<and>
             user_id new \<in> set (map id_user (users db))
          then Inr (db\<lparr>bookings := tbl\<rparr>)
          else Inl Foreign_key_violation)"

text \<open>
  Deactivating a classroom is \<open>UPDATE classrooms SET is_active = FALSE WHERE id = c\<close>.
  The foreign key of bookings declares an action for \<open>ON DELETE\<close> only, and the id
  does not change.
\<close>

definition deactivate_classroom :: "database \<Rightarrow> int \<Rightarrow> database" where
  "deactivate_classroom db c =
     db\<lparr>classrooms :=
          map (\<lambda>x. if id_classroom x = c then x\<lparr>is_active := Some False\<rparr> else x) (classrooms db)\<rparr>"

text \<open>
  \<open>DELETE FROM classrooms WHERE id = c\<close>: by \<open>ON DELETE CASCADE\<close> the bookings of
  the classroom are deleted with it.
\<close>

definition delete_classroom :: "database \<Rightarrow> int \<Rightarrow> database" where
  "delete_classroom db c =
     db\<lparr>classrooms := filter (\<lambda>x. id_classroom x \<noteq> c) (classrooms db),
        bookings := filter (\<lambda>b. classroom_id b \<noteq> c) (bookings db)\<rparr>"

text \<open>
  A database with the staff, classroom 7 and the bookings of \<open>room_day\<close>, and a new
  booking of classroom 7 from 11:00 to 12:00.
\<close>

definition school :: database where
  "school = \<lparr>users = staff, classrooms = [\<lparr>id_classroom = 7, is_active = Some True\<rparr>],
             bookings = room_day\<rparr>"

definition late :: booking where
  "late = mk_booking 5 7 3 100 (hm 11 0) (hm 12 0) ''confirmed''"

subsection \<open>The booking forms of the frontend\<close>

text \<open>
  The state of the form \<open>Book a Classroom\<close>. The classroom and the date are \<open>None\<close>
  while the field is empty. \<open>startHour\<close> and \<open>endHour\<close> hold the value of a select
  whose options are the hours 08 to 17; the field is the hour that \<open>parseInt\<close> reads
  from the option.
\<close>

record booking_details =
  classroomId :: "int option"
  date_input :: "date option"
  startHour :: nat
  endHour :: nat
  teacher :: string
  event :: string

text \<open>
  The body of the request sent to the backend; a date-time is a date and a time of day.
\<close>

record booking_request =
  classroom_id_req :: int
  start_datetime :: "date \<times> time"
  end_datetime :: "date \<times> time"
  subject_req :: string
  description_req :: "string option"

datatype 'a submitted = Alert string | Sent 'a

text \<open>
  \<open>handleBookingSubmit\<close>: it alerts and sends nothing when a field is empty or when
  the start hour is not before the end hour; otherwise it sends the request to create
  the booking.
\<close>

definition handleBookingSubmit :: "booking_details \<Rightarrow> booking_request submitted" where
  "handleBookingSubmit bookingDetails =
     (case (classroomId bookingDetails, date_input bookingDetails) of
        (Some c, Some d) \<Rightarrow>
          if teacher bookingDetails = [] \<or> event bookingDetails = []
          then Alert ''Please fill in all fields.''
          else if startHour bookingDetails \<ge> endHour bookingDetails
          then Alert ''End time must be after start time.''
          else Sent \<lparr>classroom_id_req = c,
                      start_datetime = (d, hm (startHour bookingDetails) 0),
                      end_datetime = (d, hm (endHour bookingDetails) 0),
                      subject_req = event bookingDetails,
                      description_req = Some (teacher bookingDetails)\<rparr>
      | _ \<Rightarrow> Alert ''Please fill in all fields.'')"

text \<open>
  The form \<open>Edit Booking\<close> and its \<open>handleSave\<close>: with a booking being edited, it
  sends the update built from the fields, whatever the two times are.
\<close>

record edit_form =
  subject_f :: string
  classroom_id_f :: int
  date_f :: date
  startTime :: time
  endTime :: time

definition handleSave :: "int option \<Rightarrow> edit_form \<Rightarrow> (int \<times> booking_request) option" where
  "handleSave editingBooking editForm =
     (case editingBooking of
        None \<Rightarrow> None
      | Some booking_id \<Rightarrow>
          Some (booking_id,
                \<lparr>classroom_id_req = classroom_id_f editForm,
                 start_datetime = (date_f editForm, startTime editForm),
                 end_datetime = (date_f editForm, endTime editForm),
                 subject_req = subject_f editForm,
                 description_req = None\<rparr>))"

text \<open>
  Booking 1 of \<open>room_day\<close> with its times set to start at 9:00 and end at 8:00.
\<close>

definition backwards :: booking where
  "backwards = mk_booking 1 7 2 100 (hm 9 0) (hm 8 0) ''confirmed''"

subsection \<open>Recurring reservations\<close>
















section \<open>Evaluating concrete tables\<close>

lemmas row_simps = mk_booking_def valid_times_def day_length_def hm_def is_confirmed_def
  interval_of_def instant_def overlaps_def

lemmas eval_simps = insert_booking_def update_booking_def delete_booking_def
  prevent_booking_conflicts_def check_booking_conflicts_def conflict_row_def time_clauses_def
  mk_booking_def hm_def

section \<open>The conflict test and the half-open rule\<close>

lemma overlaps_imp_time_clauses:
  "overlaps (s1, e1) (s2, e2) \<Longrightarrow> time_clauses s1 e1 s2 e2"
  unfolding overlaps_def time_clauses_def by auto

lemma time_clauses_imp_overlaps:
  "s1 < e1 \<Longrightarrow> s2 < e2 \<Longrightarrow> time_clauses s1 e1 s2 e2 \<Longrightarrow> overlaps (s1, e1) (s2, e2)"
  unfolding overlaps_def time_clauses_def by auto

lemma time_clauses_sym: "time_clauses s1 e1 s2 e2 = time_clauses s2 e2 s1 e1"
  unfolding time_clauses_def by auto


text \<open>
  C2. For two intervals \<open>[s1,e1)\<close> and \<open>[s2,e2)\<close> with \<open>s1 < e1\<close> and \<open>s2 < e2\<close>,
  the four-clause test of \<open>check_booking_conflicts\<close> reports a conflict exactly when
  \<open>s1 < e2\<close> and \<open>s2 < e1\<close>, which is the half-open rule \<open>overlaps\<close>; so does the
  check itself against a table holding one confirmed row. Back-to-back intervals are
  no conflict, and an interval that contains the other is one.
\<close>

theorem conflict_test_is_half_open_rule:
  assumes "s1 < e1" and "s2 < e2"
  shows "time_clauses s1 e1 s2 e2 = (s1 < e2 \<and> s2 < e1) \<and>
    time_clauses s1 e1 s2 e2 = overlaps (s1, e1) (s2, e2) \<and>
    check_booking_conflicts [mk_booking i c u d s1 e1 ''confirmed''] c d s2 e2 None
      = (s1 < e2 \<and> s2 < e1) \<and>
    (e1 = s2 \<or> e2 = s1 \<longrightarrow> \<not> time_clauses s1 e1 s2 e2) \<and>
    ((s1 \<le> s2 \<and> e2 \<le> e1) \<or> (s2 \<le> s1 \<and> e1 \<le> e2) \<longrightarrow> time_clauses s1 e1 s2 e2)"
proof -
  have eq: "time_clauses s1 e1 s2 e2 = (s1 < e2 \<and> s2 < e1)"
    using assms unfolding time_clauses_def by auto
  have chk: "check_booking_conflicts [mk_booking i c u d s1 e1 ''confirmed''] c d s2 e2 None
      = time_clauses s1 e1 s2 e2"
    by (simp add: check_booking_conflicts_def conflict_row_def mk_booking_def)
  have touch: "e1 = s2 \<or> e2 = s1 \<longrightarrow> \<not> time_clauses s1 e1 s2 e2"
    unfolding eq by auto
  have cont: "(s1 \<le> s2 \<and> e2 \<le> e1) \<or> (s2 \<le> s1 \<and> e1 \<le> e2) \<longrightarrow> time_clauses s1 e1 s2 e2"
    unfolding eq using assms by auto
  from eq chk touch cont show ?thesis by (simp add: overlaps_def)
qed

theorem conflict_test_is_half_open_rule_witness:
  "hm 9 0 < hm 10 0 \<and> hm 10 0 < hm 11 0 \<and> hm 9 0 < hm 11 0 \<and> hm 9 30 < hm 10 30 \<and>
   \<not> time_clauses (hm 9 0) (hm 10 0) (hm 10 0) (hm 11 0) \<and>
   time_clauses (hm 9 0) (hm 10 0) (hm 9 30) (hm 10 30) \<and>
   time_clauses (hm 9 0) (hm 11 0) (hm 9 30) (hm 10 30) \<and>
   \<not> check_booking_conflicts [mk_booking 1 7 2 100 (hm 9 0) (hm 10 0) ''confirmed'']
        7 100 (hm 10 0) (hm 11 0) None"
proof -
  have a: "hm 9 0 < hm 10 0" and b: "hm 10 0 < hm 11 0" and c: "hm 9 0 < hm 11 0"
    and d: "hm 9 30 < hm 10 30"
    by (simp_all add: hm_def)
  have e: "hm 9 0 < hm 10 30 \<and> hm 9 30 < hm 10 0 \<and> hm 9 30 < hm 11 0"
    by (simp add: hm_def)
  from conflict_test_is_half_open_rule[OF a b, of 1 7 2 100]
    conflict_test_is_half_open_rule[OF a d]
    conflict_test_is_half_open_rule[OF c d] a b c d e
  show ?thesis by simp
qed

section \<open>Confirmed bookings of a classroom never overlap\<close>

lemma overlaps_sym: "overlaps i j = overlaps j i"
  unfolding overlaps_def by auto

lemma instant_overlap_same_day:
  assumes "e1 \<le> day_length" and "e2 \<le> day_length"
    and "overlaps (instant d1 s1, instant d1 e1) (instant d2 s2, instant d2 e2)"
  shows "d1 = d2 \<and> overlaps (s1, e1) (s2, e2)"
proof -
  have pos: "0 < int day_length" by (simp add: day_length_def)
  from assms(3) have a: "d1 * int day_length + int s1 < d2 * int day_length + int e2"
    and b: "d2 * int day_length + int s2 < d1 * int day_length + int e1"
    by (simp_all add: overlaps_def instant_def)
  from a assms(2) have "d1 * int day_length < (d2 + 1) * int day_length"
    by (simp add: algebra_simps)
  with pos have le1: "d1 < d2 + 1" by (simp add: mult_less_cancel_right)
  from b assms(1) have "d2 * int day_length < (d1 + 1) * int day_length"
    by (simp add: algebra_simps)
  with pos have le2: "d2 < d1 + 1" by (simp add: mult_less_cancel_right)
  from le1 le2 have eq: "d1 = d2" by simp
  with a b show ?thesis by (simp add: overlaps_def)
qed

lemma same_day_instant_overlap:
  "overlaps (instant d s1, instant d e1) (instant d s2, instant d e2) = overlaps (s1, e1) (s2, e2)"
  by (simp add: overlaps_def instant_def)

lemma row_overlap_imp_conflict_row:
  assumes "valid_times r" and "valid_times new"
    and "overlaps (interval_of r) (interval_of new)"
    and "is_confirmed r" and "classroom_id r = classroom_id new"
    and "id_booking r \<noteq> id_booking new"
  shows "conflict_row (classroom_id new) (booking_date new) (start_time new) (end_time new)
           (Some (id_booking new)) r"
proof -
  from assms(1-3) have "booking_date r = booking_date new \<and>
      overlaps (start_time r, end_time r) (start_time new, end_time new)"
    unfolding interval_of_def valid_times_def by (intro instant_overlap_same_day) simp_all
  then show ?thesis
    using assms(4-6) overlaps_imp_time_clauses
    by (simp add: conflict_row_def is_confirmed_def)
qed

lemma accepted_row_disjoint:
  assumes "prevent_booking_conflicts tbl new = Inr n"
    and "r \<in> set tbl" and "valid_times r" and "valid_times new"
    and "is_confirmed r" and "classroom_id r = classroom_id new"
    and "id_booking r \<noteq> id_booking new"
  shows "n = new \<and> \<not> overlaps (interval_of r) (interval_of new)"
  using assms row_overlap_imp_conflict_row[of r new]
  by (auto simp: prevent_booking_conflicts_def check_booking_conflicts_def split: if_splits)

lemma insert_booking_store_ok:
  assumes "store_ok tbl" and "valid_times new" and "insert_booking tbl new = Inr tbl'"
  shows "store_ok tbl'"
proof -
  from assms(3) obtain n where n: "prevent_booking_conflicts tbl new = Inr n"
    and fresh: "id_booking n \<notin> set (map id_booking tbl)" and tbl': "tbl' = tbl @ [n]"
    by (auto simp: insert_booking_def split: sum.splits if_splits)
  from n have nn: "n = new"
    by (auto simp: prevent_booking_conflicts_def split: if_splits)
  have d: "distinct (map id_booking tbl')"
    using assms(1) fresh tbl' by (simp add: store_ok_def)
  have v: "\<forall>r \<in> set tbl'. valid_times r"
    using assms(1,2) tbl' nn by (auto simp: store_ok_def)
  have "confirmed_disjoint tbl'"
    unfolding confirmed_disjoint_def
  proof (intro ballI impI)
    fix r1 r2 assume r1: "r1 \<in> set tbl'" and r2: "r2 \<in> set tbl'"
      and h: "id_booking r1 \<noteq> id_booking r2 \<and> is_confirmed r1 \<and> is_confirmed r2 \<and>
        classroom_id r1 = classroom_id r2"
    consider "r1 \<in> set tbl" "r2 \<in> set tbl" | "r1 \<in> set tbl" "r2 = new" | "r1 = new" "r2 \<in> set tbl"
      | "r1 = new" "r2 = new"
      using r1 r2 tbl' nn by auto
    then show "\<not> overlaps (interval_of r1) (interval_of r2)"
    proof cases
      case 1
      then show ?thesis using assms(1) h by (auto simp: store_ok_def confirmed_disjoint_def)
    next
      case 2
      then show ?thesis
        using accepted_row_disjoint[OF n, of r1] assms(1,2) h by (auto simp: store_ok_def)
    next
      case 3
      then have "\<not> overlaps (interval_of r2) (interval_of r1)"
        using accepted_row_disjoint[OF n, of r2] assms(1,2) h by (auto simp: store_ok_def)
      then show ?thesis by (simp add: overlaps_sym)
    next
      case 4
      then show ?thesis using h by simp
    qed
  qed
  with d v show ?thesis by (simp add: store_ok_def)
qed

lemma prevent_Inr_same: "prevent_booking_conflicts tbl new = Inr n \<Longrightarrow> n = new"
  by (auto simp: prevent_booking_conflicts_def split: if_splits)

lemma distinct_replace_id:
  assumes "distinct xs" and "y = k \<or> y \<notin> set xs"
  shows "distinct (map (\<lambda>i. if i = k then y else i) xs)"
proof -
  have "inj_on (\<lambda>i. if i = k then y else i) (set xs)"
    using assms(2) by (auto simp: inj_on_def split: if_splits)
  with assms(1) show ?thesis by (simp add: distinct_map)
qed

lemma update_booking_store_ok:
  assumes "store_ok tbl" and "valid_times new" and "update_booking tbl k new = Inr tbl'"
  shows "store_ok tbl'"
proof (cases "k \<in> set (map id_booking tbl)")
  case False
  with assms show ?thesis by (simp add: update_booking_def)
next
  case True
  with assms(3) obtain n where n: "prevent_booking_conflicts tbl new = Inr n"
    and key: "id_booking n = k \<or> id_booking n \<notin> set (map id_booking tbl)"
    and tbl': "tbl' = map (\<lambda>r. if id_booking r = k then n else r) tbl"
    by (auto simp: update_booking_def split: sum.splits if_splits)
  have nn: "n = new" using n by (rule prevent_Inr_same)
  have ids: "map id_booking tbl' = map (\<lambda>i. if i = k then id_booking new else i) (map id_booking tbl)"
    unfolding tbl' nn by (induction tbl) auto
  have d: "distinct (map id_booking tbl')"
    unfolding ids using assms(1) key nn by (intro distinct_replace_id) (auto simp: store_ok_def)
  have mem: "\<And>r. r \<in> set tbl' \<Longrightarrow> r = new \<or> (r \<in> set tbl \<and> id_booking r \<noteq> k)"
    unfolding tbl' nn by auto
  have v: "\<forall>r \<in> set tbl'. valid_times r"
    using assms(1,2) mem by (auto simp: store_ok_def)
  have "confirmed_disjoint tbl'"
    unfolding confirmed_disjoint_def
  proof (intro ballI impI)
    fix r1 r2 assume r1: "r1 \<in> set tbl'" and r2: "r2 \<in> set tbl'"
      and h: "id_booking r1 \<noteq> id_booking r2 \<and> is_confirmed r1 \<and> is_confirmed r2 \<and>
        classroom_id r1 = classroom_id r2"
    consider "r1 \<in> set tbl" "r2 \<in> set tbl" | "r1 \<in> set tbl" "r2 = new" | "r1 = new" "r2 \<in> set tbl"
      | "r1 = new" "r2 = new"
      using mem[OF r1] mem[OF r2] by auto
    then show "\<not> overlaps (interval_of r1) (interval_of r2)"
    proof cases
      case 1
      then show ?thesis using assms(1) h by (auto simp: store_ok_def confirmed_disjoint_def)
    next
      case 2
      then show ?thesis
        using accepted_row_disjoint[OF n, of r1] assms(1,2) h by (auto simp: store_ok_def)
    next
      case 3
      then have "\<not> overlaps (interval_of r2) (interval_of r1)"
        using accepted_row_disjoint[OF n, of r2] assms(1,2) h by (auto simp: store_ok_def)
      then show ?thesis by (simp add: overlaps_sym)
    next
      case 4
      then show ?thesis using h by simp
    qed
  qed
  with d v show ?thesis by (simp add: store_ok_def)
qed

lemma delete_booking_store_ok:
  assumes "store_ok tbl"
  shows "store_ok (delete_booking tbl k)"
  using assms
  by (auto simp: store_ok_def delete_booking_def confirmed_disjoint_def distinct_map_filter)

lemma exec_statement_store_ok:
  assumes "store_ok tbl" and "valid_statement st" and "exec_statement tbl st = Inr tbl'"
  shows "store_ok tbl'"
proof (cases st)
  case (Insert new)
  with assms show ?thesis by (auto simp: valid_statement_def intro: insert_booking_store_ok)
next
  case (Update k new)
  with assms show ?thesis by (auto simp: valid_statement_def intro: update_booking_store_ok)
next
  case (Delete k)
  with assms show ?thesis by (auto intro: delete_booking_store_ok)
qed

lemma run_store_ok:
  "store_ok tbl \<Longrightarrow> \<forall>st \<in> set sts. valid_statement st \<Longrightarrow> store_ok (run tbl sts)"
proof (induction sts arbitrary: tbl)
  case Nil
  then show ?case by simp
next
  case (Cons st sts)
  show ?case
  proof (cases "exec_statement tbl st")
    case (Inl e)
    with Cons show ?thesis by simp
  next
    case (Inr tbl')
    with Cons.prems have "store_ok tbl'" by (auto intro: exec_statement_store_ok)
    with Cons Inr show ?thesis by simp
  qed
qed

lemma overlap_rejected:
  assumes "\<forall>r \<in> set tbl. valid_times r" and "valid_times new" and "introduces_overlap tbl new"
  shows "prevent_booking_conflicts tbl new = Inl Booking_conflict"
proof -
  from assms(3) obtain r where r: "r \<in> set tbl" "id_booking r \<noteq> id_booking new" "is_confirmed r"
    "classroom_id r = classroom_id new" "overlaps (interval_of r) (interval_of new)"
    by (auto simp: introduces_overlap_def)
  with assms(1,2) have "conflict_row (classroom_id new) (booking_date new) (start_time new)
      (end_time new) (Some (id_booking new)) r"
    by (intro row_overlap_imp_conflict_row) auto
  with r(1) show ?thesis
    by (auto simp: prevent_booking_conflicts_def check_booking_conflicts_def)
qed

lemma prevent_delete_booking:
  "prevent_booking_conflicts (delete_booking tbl k) new = Inl Booking_conflict
     \<Longrightarrow> prevent_booking_conflicts tbl new = Inl Booking_conflict"
  by (auto simp: prevent_booking_conflicts_def check_booking_conflicts_def delete_booking_def
      split: if_splits)

lemma run_room_day: "run room_day day_statements = 
   [mk_booking 2 7 3 100 (hm 9 30) (hm 11 0) ''confirmed'',
    mk_booking 4 7 3 101 (hm 9 30) (hm 10 30) ''confirmed'']"
  by (simp add: room_day_def day_statements_def insert_booking_def update_booking_def
      delete_booking_def prevent_booking_conflicts_def check_booking_conflicts_def
      conflict_row_def time_clauses_def mk_booking_def hm_def)

text \<open>
  C1. Starting from a table in which the confirmed bookings of every classroom are
  pairwise non-overlapping, they are so after any sequence of inserts, updates and
  deletes, each committed or rejected on its own, and after every single insert or
  update that is accepted. An insert or update whose new row is confirmed and overlaps
  a confirmed row that remains for the same classroom is rejected with
  \<open>Booking_conflict\<close>. Statements run one after the other here.
\<close>

theorem confirmed_bookings_never_overlap:
  assumes "store_ok tbl" and "list_all valid_statement sts" and "valid_times new"
  shows "confirmed_disjoint (run tbl sts) \<and>
    (\<forall>tbl'. insert_booking tbl new = Inr tbl' \<longrightarrow> confirmed_disjoint tbl') \<and>
    (\<forall>tbl'. update_booking tbl k new = Inr tbl' \<longrightarrow> confirmed_disjoint tbl') \<and>
    (introduces_overlap tbl new \<longrightarrow> insert_booking tbl new = Inl Booking_conflict) \<and>
    (k \<in> set (map id_booking tbl) \<and> introduces_overlap (delete_booking tbl k) new
       \<longrightarrow> update_booking tbl k new = Inl Booking_conflict)"
proof (intro conjI allI impI)
  show "confirmed_disjoint (run tbl sts)"
    using run_store_ok[OF assms(1)] assms(2) by (simp add: store_ok_def list_all_iff)
next
  fix tbl' assume "insert_booking tbl new = Inr tbl'"
  then show "confirmed_disjoint tbl'"
    using insert_booking_store_ok[OF assms(1,3)] by (simp add: store_ok_def)
next
  fix tbl' assume "update_booking tbl k new = Inr tbl'"
  then show "confirmed_disjoint tbl'"
    using update_booking_store_ok[OF assms(1,3)] by (simp add: store_ok_def)
next
  assume "introduces_overlap tbl new"
  then have "prevent_booking_conflicts tbl new = Inl Booking_conflict"
    using assms(1,3) by (intro overlap_rejected) (auto simp: store_ok_def)
  then show "insert_booking tbl new = Inl Booking_conflict"
    by (simp add: insert_booking_def)
next
  assume h: "k \<in> set (map id_booking tbl) \<and> introduces_overlap (delete_booking tbl k) new"
  then have "prevent_booking_conflicts (delete_booking tbl k) new = Inl Booking_conflict"
    using assms(1,3) by (intro overlap_rejected) (auto simp: store_ok_def delete_booking_def)
  then have "prevent_booking_conflicts tbl new = Inl Booking_conflict"
    by (rule prevent_delete_booking)
  with h show "update_booking tbl k new = Inl Booking_conflict"
    by (simp add: update_booking_def)
qed

theorem confirmed_bookings_never_overlap_witness:
  "store_ok room_day \<and> list_all valid_statement day_statements \<and>
   valid_times (mk_booking 2 7 3 100 (hm 9 30) (hm 11 0) ''confirmed'') \<and>
   introduces_overlap room_day (mk_booking 2 7 3 100 (hm 9 30) (hm 11 0) ''confirmed'') \<and>
   2 \<in> set (map id_booking room_day) \<and>
   introduces_overlap (delete_booking room_day 2)
     (mk_booking 2 7 3 100 (hm 9 30) (hm 11 0) ''confirmed'') \<and>
   confirmed_disjoint (run room_day day_statements) \<and>
   insert_booking room_day (mk_booking 2 7 3 100 (hm 9 30) (hm 11 0) ''confirmed'')
     = Inl Booking_conflict \<and>
   update_booking room_day 2 (mk_booking 2 7 3 100 (hm 9 30) (hm 11 0) ''confirmed'')
     = Inl Booking_conflict \<and>
   valid_times (mk_booking 4 7 3 100 (hm 11 0) (hm 12 0) ''confirmed'') \<and>
   insert_booking room_day (mk_booking 4 7 3 100 (hm 11 0) (hm 12 0) ''confirmed'')
     = Inr (room_day @ [mk_booking 4 7 3 100 (hm 11 0) (hm 12 0) ''confirmed'']) \<and>
   confirmed_disjoint (room_day @ [mk_booking 4 7 3 100 (hm 11 0) (hm 12 0) ''confirmed'']) \<and>
   update_booking room_day 2 (mk_booking 2 7 3 100 (hm 11 0) (hm 12 0) ''confirmed'')
     = Inr [mk_booking 1 7 2 100 (hm 9 0) (hm 10 0) ''confirmed'',
            mk_booking 2 7 3 100 (hm 11 0) (hm 12 0) ''confirmed''] \<and>
   confirmed_disjoint [mk_booking 1 7 2 100 (hm 9 0) (hm 10 0) ''confirmed'',
                       mk_booking 2 7 3 100 (hm 11 0) (hm 12 0) ''confirmed'']"
proof -
  let ?new = "mk_booking 2 7 3 100 (hm 9 30) (hm 11 0) ''confirmed''"
  let ?late = "mk_booking 4 7 3 100 (hm 11 0) (hm 12 0) ''confirmed''"
  let ?moved = "mk_booking 2 7 3 100 (hm 11 0) (hm 12 0) ''confirmed''"
  have h1: "store_ok room_day"
    by (simp add: room_day_def store_ok_def confirmed_disjoint_def row_simps)
  have h2: "list_all valid_statement day_statements"
    by (simp add: day_statements_def valid_statement_def row_simps)
  have h3: "valid_times ?new" "valid_times ?late" "valid_times ?moved"
    by (simp_all add: row_simps)
  have h4: "introduces_overlap room_day ?new"
    by (simp add: introduces_overlap_def room_day_def row_simps)
  have h5: "2 \<in> set (map id_booking room_day)"
    by (simp add: room_day_def mk_booking_def)
  have h6: "introduces_overlap (delete_booking room_day 2) ?new"
    by (simp add: introduces_overlap_def delete_booking_def room_day_def row_simps)
  have ins: "insert_booking room_day ?late = Inr (room_day @ [?late])"
    by (simp add: room_day_def eval_simps)
  have upd: "update_booking room_day 2 ?moved
      = Inr [mk_booking 1 7 2 100 (hm 9 0) (hm 10 0) ''confirmed'', ?moved]"
    by (simp add: room_day_def eval_simps)
  from confirmed_bookings_never_overlap[OF h1 h2 h3(1), of 2] h4 h5 h6
  have rejected: "confirmed_disjoint (run room_day day_statements) \<and>
      insert_booking room_day ?new = Inl Booking_conflict \<and>
      update_booking room_day 2 ?new = Inl Booking_conflict"
    by blast
  from confirmed_bookings_never_overlap[OF h1 h2 h3(2), of 2] ins
  have kept_ins: "confirmed_disjoint (room_day @ [?late])"
    by blast
  from confirmed_bookings_never_overlap[OF h1 h2 h3(3), of 2] upd
  have kept_upd: "confirmed_disjoint [mk_booking 1 7 2 100 (hm 9 0) (hm 10 0) ''confirmed'', ?moved]"
    by blast
  from h1 h2 h3 h4 h5 h6 rejected ins kept_ins upd kept_upd
  show ?thesis by simp
qed

section \<open>What the trigger rejects\<close>

lemma clash_sym: "clash r1 r2 = clash r2 r1"
  unfolding clash_def using time_clauses_sym[of "start_time r1" "end_time r1"] by auto

lemma conflict_row_clashing:
  "conflict_row (classroom_id new) (booking_date new) (start_time new) (end_time new)
     (Some (id_booking new)) r = clashing_row new r"
  by (auto simp: conflict_row_def clashing_row_def clash_def)

lemma prevent_conflict_iff:
  "(prevent_booking_conflicts tbl new = Inl Booking_conflict) = (\<exists>r \<in> set tbl. clashing_row new r)"
  by (simp add: prevent_booking_conflicts_def check_booking_conflicts_def conflict_row_clashing)

lemma prevent_cases:
  "prevent_booking_conflicts tbl new = Inl Booking_conflict \<or>
   prevent_booking_conflicts tbl new = Inr new"
  by (simp add: prevent_booking_conflicts_def)

lemma insert_conflict_iff:
  "(insert_booking tbl new = Inl Booking_conflict) = (\<exists>r \<in> set tbl. clashing_row new r)"
  using prevent_cases[of tbl new] prevent_conflict_iff[of tbl new]
  by (auto simp: insert_booking_def split: if_splits)

lemma update_conflict_iff:
  "k \<in> set (map id_booking tbl) \<Longrightarrow>
   (update_booking tbl k new = Inl Booking_conflict) = (\<exists>r \<in> set tbl. clashing_row new r)"
  using prevent_cases[of tbl new] prevent_conflict_iff[of tbl new]
  by (auto simp: update_booking_def split: if_splits)

lemma clashing_row_status: "clashing_row (new\<lparr>status := st\<rparr>) r = clashing_row new r"
  by (simp add: clashing_row_def clash_def)

lemma clashing_row_same_date: "clashing_row new r \<Longrightarrow> booking_date r = booking_date new"
  by (simp add: clashing_row_def clash_def)

text \<open>
  C10. An insert, or an update of an existing row, raises the conflict exception exactly
  when the table holds a row of another id with the same classroom, the same booking
  date and status \<open>confirmed\<close> that passes the four-clause test against the new row.
  The new row's own status plays no part (a cancelled row that overlaps a confirmed
  booking is rejected too), and rows of other booking dates are never compared.
\<close>

theorem conflict_raised_iff_clashing_row:
  "(insert_booking tbl new = Inl Booking_conflict) = (\<exists>r \<in> set tbl. clashing_row new r) \<and>
   (k \<in> set (map id_booking tbl) \<longrightarrow>
      (update_booking tbl k new = Inl Booking_conflict) = (\<exists>r \<in> set tbl. clashing_row new r)) \<and>
   (insert_booking tbl (new\<lparr>status := st\<rparr>) = Inl Booking_conflict)
      = (insert_booking tbl new = Inl Booking_conflict) \<and>
   (k \<in> set (map id_booking tbl) \<longrightarrow>
      (update_booking tbl k (new\<lparr>status := st\<rparr>) = Inl Booking_conflict)
        = (update_booking tbl k new = Inl Booking_conflict)) \<and>
   (insert_booking (filter (\<lambda>r. booking_date r = booking_date new) tbl) new = Inl Booking_conflict)
      = (insert_booking tbl new = Inl Booking_conflict)"
proof (intro conjI impI)
  show "(insert_booking tbl new = Inl Booking_conflict) = (\<exists>r \<in> set tbl. clashing_row new r)"
    by (rule insert_conflict_iff)
next
  assume "k \<in> set (map id_booking tbl)"
  then show "(update_booking tbl k new = Inl Booking_conflict) = (\<exists>r \<in> set tbl. clashing_row new r)"
    by (rule update_conflict_iff)
next
  show "(insert_booking tbl (new\<lparr>status := st\<rparr>) = Inl Booking_conflict)
      = (insert_booking tbl new = Inl Booking_conflict)"
    by (simp add: insert_conflict_iff clashing_row_status)
next
  assume "k \<in> set (map id_booking tbl)"
  then show "(update_booking tbl k (new\<lparr>status := st\<rparr>) = Inl Booking_conflict)
        = (update_booking tbl k new = Inl Booking_conflict)"
    by (simp add: update_conflict_iff clashing_row_status)
next
  show "(insert_booking (filter (\<lambda>r. booking_date r = booking_date new) tbl) new = Inl Booking_conflict)
      = (insert_booking tbl new = Inl Booking_conflict)"
    using clashing_row_same_date[of new] by (auto simp: insert_conflict_iff)
qed

theorem conflict_raised_iff_clashing_row_witness:
  "2 \<in> set (map id_booking room_day) \<and>
   clashing_row cancelled_overlap (mk_booking 1 7 2 100 (hm 9 0) (hm 10 0) ''confirmed'') \<and>
   insert_booking room_day cancelled_overlap = Inl Booking_conflict \<and>
   update_booking room_day 2 cancelled_overlap = Inl Booking_conflict \<and>
   insert_booking room_day (cancelled_overlap\<lparr>booking_date := 101\<rparr>)
     = Inr (room_day @ [cancelled_overlap\<lparr>booking_date := 101\<rparr>])"
proof -
  have k: "2 \<in> set (map id_booking room_day)"
    by (simp add: room_day_def mk_booking_def)
  have c: "clashing_row cancelled_overlap (mk_booking 1 7 2 100 (hm 9 0) (hm 10 0) ''confirmed'')"
    by (simp add: clashing_row_def clash_def cancelled_overlap_def time_clauses_def mk_booking_def hm_def)
  then have ex: "\<exists>r \<in> set room_day. clashing_row cancelled_overlap r"
    by (auto simp: room_day_def)
  have other: "insert_booking room_day (cancelled_overlap\<lparr>booking_date := 101\<rparr>)
     = Inr (room_day @ [cancelled_overlap\<lparr>booking_date := 101\<rparr>])"
    by (simp add: room_day_def cancelled_overlap_def eval_simps)
  from conflict_raised_iff_clashing_row[of room_day cancelled_overlap 2] k c ex other
  show ?thesis by simp
qed

section \<open>The check with an id excluded\<close>

lemma clash_iff_overlap:
  assumes "proper_interval r1" and "proper_interval r2"
  shows "clash r1 r2 = (classroom_id r1 = classroom_id r2 \<and> overlaps (interval_of r1) (interval_of r2))"
proof
  assume c: "clash r1 r2"
  then have "overlaps (start_time r1, end_time r1) (start_time r2, end_time r2)"
    using assms by (auto simp: clash_def proper_interval_def intro: time_clauses_imp_overlaps)
  with c show "classroom_id r1 = classroom_id r2 \<and> overlaps (interval_of r1) (interval_of r2)"
    by (simp add: clash_def interval_of_def same_day_instant_overlap)
next
  assume o: "classroom_id r1 = classroom_id r2 \<and> overlaps (interval_of r1) (interval_of r2)"
  have "booking_date r1 = booking_date r2 \<and>
      overlaps (start_time r1, end_time r1) (start_time r2, end_time r2)"
    using assms o unfolding interval_of_def proper_interval_def
    by (intro instant_overlap_same_day) simp_all
  with o show "clash r1 r2"
    by (simp add: clash_def overlaps_imp_time_clauses)
qed

lemma check_exclude_delete:
  "check_booking_conflicts tbl c d s e (Some k)
     = check_booking_conflicts (delete_booking tbl k) c d s e None"
  by (auto simp: check_booking_conflicts_def conflict_row_def delete_booking_def)

lemma check_own_row:
  "check_booking_conflicts tbl (classroom_id new) (booking_date new) (start_time new)
       (end_time new) (Some (id_booking new))
     = (\<exists>r \<in> set tbl. clashing_row new r)"
  by (simp add: check_booking_conflicts_def conflict_row_clashing)

section \<open>Cancelled bookings do not block\<close>

lemma trigger_inv_empty: "trigger_inv []"
  by (simp add: trigger_inv_def)

lemma accepted_no_clash:
  assumes "prevent_booking_conflicts tbl new = Inr n" and "r \<in> set tbl"
    and "id_booking r \<noteq> id_booking new" and "is_confirmed r"
  shows "\<not> clash r new"
proof -
  from assms(1) have "prevent_booking_conflicts tbl new \<noteq> Inl Booking_conflict" by simp
  then have "\<not> clashing_row new r"
    using assms(2) by (auto simp: prevent_conflict_iff)
  with assms(3,4) show ?thesis by (simp add: clashing_row_def is_confirmed_def)
qed

lemma trigger_inv_step:
  assumes inv: "trigger_inv tbl" and n: "prevent_booking_conflicts tbl new = Inr n"
    and d: "distinct (map id_booking tbl')"
    and mem: "\<And>r. r \<in> set tbl' \<Longrightarrow> r = new \<or> r \<in> set tbl"
  shows "trigger_inv tbl'"
  unfolding trigger_inv_def
proof (intro conjI ballI impI)
  show "distinct (map id_booking tbl')" by (rule d)
next
  fix r1 r2 assume r1: "r1 \<in> set tbl'" and r2: "r2 \<in> set tbl'"
    and h: "id_booking r1 \<noteq> id_booking r2 \<and> is_confirmed r1 \<and> is_confirmed r2"
  consider "r1 \<in> set tbl" "r2 \<in> set tbl" | "r1 \<in> set tbl" "r2 = new" | "r1 = new" "r2 \<in> set tbl"
    | "r1 = new" "r2 = new"
    using mem[OF r1] mem[OF r2] by auto
  then show "\<not> clash r1 r2"
  proof cases
    case 1
    then show ?thesis using inv h by (auto simp: trigger_inv_def)
  next
    case 2
    then show ?thesis using accepted_no_clash[OF n, of r1] h by simp
  next
    case 3
    then have "\<not> clash r2 r1" using accepted_no_clash[OF n, of r2] h by simp
    then show ?thesis by (simp add: clash_sym)
  next
    case 4
    then show ?thesis using h by simp
  qed
qed

lemma insert_booking_trigger_inv:
  assumes "trigger_inv tbl" and "insert_booking tbl new = Inr tbl'"
  shows "trigger_inv tbl'"
proof -
  from assms(2) obtain n where n: "prevent_booking_conflicts tbl new = Inr n"
    and fresh: "id_booking n \<notin> set (map id_booking tbl)" and tbl': "tbl' = tbl @ [n]"
    by (auto simp: insert_booking_def split: sum.splits if_splits)
  have nn: "n = new" using n by (rule prevent_Inr_same)
  have "distinct (map id_booking tbl')"
    using assms(1) fresh tbl' by (simp add: trigger_inv_def)
  moreover have "\<And>r. r \<in> set tbl' \<Longrightarrow> r = new \<or> r \<in> set tbl"
    using tbl' nn by auto
  ultimately show ?thesis using assms(1) n by (rule trigger_inv_step[rotated 2])
qed

lemma update_booking_trigger_inv:
  assumes "trigger_inv tbl" and "update_booking tbl k new = Inr tbl'"
  shows "trigger_inv tbl'"
proof (cases "k \<in> set (map id_booking tbl)")
  case False
  with assms show ?thesis by (simp add: update_booking_def)
next
  case True
  with assms(2) obtain n where n: "prevent_booking_conflicts tbl new = Inr n"
    and key: "id_booking n = k \<or> id_booking n \<notin> set (map id_booking tbl)"
    and tbl': "tbl' = map (\<lambda>r. if id_booking r = k then n else r) tbl"
    by (auto simp: update_booking_def split: sum.splits if_splits)
  have nn: "n = new" using n by (rule prevent_Inr_same)
  have ids: "map id_booking tbl' = map (\<lambda>i. if i = k then id_booking new else i) (map id_booking tbl)"
    unfolding tbl' nn by (induction tbl) auto
  have "distinct (map id_booking tbl')"
    unfolding ids using assms(1) key nn by (intro distinct_replace_id) (auto simp: trigger_inv_def)
  moreover have "\<And>r. r \<in> set tbl' \<Longrightarrow> r = new \<or> r \<in> set tbl"
    unfolding tbl' nn by auto
  ultimately show ?thesis using assms(1) n by (rule trigger_inv_step[rotated 2])
qed

lemma delete_booking_trigger_inv: "trigger_inv tbl \<Longrightarrow> trigger_inv (delete_booking tbl k)"
  by (auto simp: trigger_inv_def delete_booking_def distinct_map_filter)

lemma run_trigger_inv: "trigger_inv tbl \<Longrightarrow> trigger_inv (run tbl sts)"
proof (induction sts arbitrary: tbl)
  case Nil
  then show ?case by simp
next
  case (Cons st sts)
  show ?case
  proof (cases "exec_statement tbl st")
    case (Inl e)
    with Cons show ?thesis by simp
  next
    case (Inr tbl')
    have "trigger_inv tbl'"
    proof (cases st)
      case (Insert new)
      with Inr Cons.prems show ?thesis by (auto intro: insert_booking_trigger_inv)
    next
      case (Update k new)
      with Inr Cons.prems show ?thesis by (auto intro: update_booking_trigger_inv)
    next
      case (Delete k)
      with Inr Cons.prems show ?thesis by (auto intro: delete_booking_trigger_inv)
    qed
    with Cons.IH Inr show ?thesis by simp
  qed
qed

lemma check_confirmed_only:
  "check_booking_conflicts tbl c d s e x = check_booking_conflicts (filter is_confirmed tbl) c d s e x"
  by (auto simp: check_booking_conflicts_def conflict_row_def is_confirmed_def)

lemma set_status_ids: "map id_booking (set_status tbl k st) = map id_booking tbl"
  by (induction tbl) (auto simp: set_status_def)

lemma set_status_row:
  assumes "distinct (map id_booking tbl)" and "r \<in> set tbl"
  shows "map (\<lambda>x. if id_booking x = id_booking r then r\<lparr>status := st\<rparr> else x) tbl
       = set_status tbl (id_booking r) st"
proof -
  have "\<And>x. x \<in> set tbl \<Longrightarrow> id_booking x = id_booking r \<Longrightarrow> x = r"
    using assms by (meson distinct_map inj_onD)
  then show ?thesis by (auto simp: set_status_def)
qed

lemma set_status_mem:
  "x \<in> set (set_status tbl k st) \<Longrightarrow>
     (x \<in> set tbl \<and> id_booking x \<noteq> k) \<or> (\<exists>y \<in> set tbl. id_booking y = k \<and> x = y\<lparr>status := st\<rparr>)"
  by (auto simp: set_status_def)

text \<open>
  C5. The check reads confirmed rows only: it gives the same answer on the table and on
  its confirmed rows. In any table built from the empty one by inserts, updates and
  deletes, setting the status of a confirmed reservation to \<open>cancelled\<close> is accepted,
  and the insert of a new reservation for the same classroom, date and times then
  succeeds.
\<close>

theorem cancelled_rows_do_not_block:
  assumes "tbl = run [] sts" and "r \<in> set tbl" and "is_confirmed r"
    and "id_booking new \<notin> set (map id_booking tbl)" and "same_slot new r"
  shows "check_booking_conflicts tbl c d s e x
       = check_booking_conflicts (filter is_confirmed tbl) c d s e x \<and>
    update_booking tbl (id_booking r) (r\<lparr>status := Some ''cancelled''\<rparr>)
       = Inr (set_status tbl (id_booking r) (Some ''cancelled'')) \<and>
    insert_booking (set_status tbl (id_booking r) (Some ''cancelled'')) new
       = Inr (set_status tbl (id_booking r) (Some ''cancelled'') @ [new])"
proof -
  let ?c = "r\<lparr>status := Some ''cancelled''\<rparr>"
  let ?tbl2 = "set_status tbl (id_booking r) (Some ''cancelled'')"
  have inv: "trigger_inv tbl"
    unfolding assms(1) by (intro run_trigger_inv trigger_inv_empty)
  then have dist: "distinct (map id_booking tbl)" by (simp add: trigger_inv_def)
  have free: "\<not> clash y r" if "y \<in> set tbl" "id_booking y \<noteq> id_booking r" "is_confirmed y" for y
    using inv that assms(2,3) by (auto simp: trigger_inv_def)
  have "\<not> (\<exists>y \<in> set tbl. clashing_row ?c y)"
    using free by (auto simp: clashing_row_def clash_def is_confirmed_def)
  then have p1: "prevent_booking_conflicts tbl ?c = Inr ?c"
    using prevent_cases[of tbl ?c] by (simp add: prevent_conflict_iff)
  have upd: "update_booking tbl (id_booking r) ?c = Inr ?tbl2"
    using p1 assms(2) set_status_row[OF dist assms(2)] by (simp add: update_booking_def)
  have "\<not> clashing_row new y" if "y \<in> set ?tbl2" for y
  proof -
    from set_status_mem[OF that] show ?thesis
    proof
      assume "y \<in> set tbl \<and> id_booking y \<noteq> id_booking r"
      then show ?thesis
        using free[of y] assms(5)
        by (auto simp: clashing_row_def clash_def is_confirmed_def same_slot_def)
    next
      assume "\<exists>z \<in> set tbl. id_booking z = id_booking r \<and> y = z\<lparr>status := Some ''cancelled''\<rparr>"
      then show ?thesis by (auto simp: clashing_row_def)
    qed
  qed
  then have "\<not> (\<exists>y \<in> set ?tbl2. clashing_row new y)" by blast
  then have p2: "prevent_booking_conflicts ?tbl2 new = Inr new"
    using prevent_cases[of ?tbl2 new] by (simp add: prevent_conflict_iff)
  have ins: "insert_booking ?tbl2 new = Inr (?tbl2 @ [new])"
    using p2 assms(4) by (simp add: insert_booking_def set_status_ids del: set_map)
  from check_confirmed_only upd ins show ?thesis by blast
qed

lemma run_morning: "run [] morning = room_day"
  by (simp add: morning_def room_day_def eval_simps)

theorem cancelled_rows_do_not_block_witness:
  "room_day = run [] morning \<and>
   mk_booking 1 7 2 100 (hm 9 0) (hm 10 0) ''confirmed'' \<in> set room_day \<and>
   is_confirmed (mk_booking 1 7 2 100 (hm 9 0) (hm 10 0) ''confirmed'') \<and>
   5 \<notin> set (map id_booking room_day) \<and>
   same_slot (mk_booking 5 7 3 100 (hm 9 0) (hm 10 0) ''confirmed'')
     (mk_booking 1 7 2 100 (hm 9 0) (hm 10 0) ''confirmed'') \<and>
   insert_booking room_day (mk_booking 5 7 3 100 (hm 9 0) (hm 10 0) ''confirmed'')
     = Inl Booking_conflict \<and>
   update_booking room_day 1 (mk_booking 1 7 2 100 (hm 9 0) (hm 10 0) ''cancelled'')
     = Inr [mk_booking 1 7 2 100 (hm 9 0) (hm 10 0) ''cancelled'',
            mk_booking 2 7 3 100 (hm 10 0) (hm 11 0) ''confirmed''] \<and>
   insert_booking [mk_booking 1 7 2 100 (hm 9 0) (hm 10 0) ''cancelled'',
                   mk_booking 2 7 3 100 (hm 10 0) (hm 11 0) ''confirmed'']
       (mk_booking 5 7 3 100 (hm 9 0) (hm 10 0) ''confirmed'')
     = Inr [mk_booking 1 7 2 100 (hm 9 0) (hm 10 0) ''cancelled'',
            mk_booking 2 7 3 100 (hm 10 0) (hm 11 0) ''confirmed'',
            mk_booking 5 7 3 100 (hm 9 0) (hm 10 0) ''confirmed'']"
proof -
  let ?r = "mk_booking 1 7 2 100 (hm 9 0) (hm 10 0) ''confirmed''"
  let ?new = "mk_booking 5 7 3 100 (hm 9 0) (hm 10 0) ''confirmed''"
  have h1: "room_day = run [] morning" by (simp add: run_morning)
  have h2: "?r \<in> set room_day" by (simp add: room_day_def)
  have h3: "is_confirmed ?r" by (simp add: is_confirmed_def mk_booking_def)
  have h4: "id_booking ?new \<notin> set (map id_booking room_day)"
    by (simp add: room_day_def mk_booking_def)
  have h5: "same_slot ?new ?r" by (simp add: same_slot_def mk_booking_def)
  have i: "id_booking ?r = 1" "id_booking ?new = 5" by (simp_all add: mk_booking_def)
  have c: "?r\<lparr>status := Some ''cancelled''\<rparr> = mk_booking 1 7 2 100 (hm 9 0) (hm 10 0) ''cancelled''"
    by (simp add: mk_booking_def)
  have t: "set_status room_day 1 (Some ''cancelled'')
      = [mk_booking 1 7 2 100 (hm 9 0) (hm 10 0) ''cancelled'',
         mk_booking 2 7 3 100 (hm 10 0) (hm 11 0) ''confirmed'']"
    by (simp add: set_status_def room_day_def mk_booking_def)
  have b: "insert_booking room_day ?new = Inl Booking_conflict"
    by (simp add: room_day_def eval_simps)
  from cancelled_rows_do_not_block[OF h1 h2 h3 h4 h5] h1 h2 h3 h4 h5 b
  show ?thesis by (simp add: i c t)
qed

section \<open>An update that overlaps only its own row\<close>

text \<open>
  Where every row of the table is a proper interval, the check with an id excluded finds
  a conflict exactly when another confirmed reservation of the room overlaps the
  candidate, and an update that overlaps no reservation but its own is accepted.
\<close>

lemma exclude_own_row_proper:
  assumes "list_all proper_interval tbl" and "proper_interval new"
    and "id_booking new = k" and "k \<in> set (map id_booking tbl)"
  shows "check_booking_conflicts tbl c d s e (Some k)
       = check_booking_conflicts (delete_booking tbl k) c d s e None \<and>
    check_booking_conflicts tbl (classroom_id new) (booking_date new) (start_time new)
        (end_time new) (Some k)
       = (\<exists>r \<in> set tbl. id_booking r \<noteq> k \<and> is_confirmed r \<and>
            classroom_id r = classroom_id new \<and> overlaps (interval_of r) (interval_of new)) \<and>
    ((\<forall>r \<in> set tbl. is_confirmed r \<and> classroom_id r = classroom_id new \<and>
          overlaps (interval_of r) (interval_of new) \<longrightarrow> id_booking r = k)
      \<longrightarrow> update_booking tbl k new = Inr (map (\<lambda>r. if id_booking r = k then new else r) tbl))"
proof -
  have row: "\<And>r. r \<in> set tbl \<Longrightarrow> clashing_row new r
      = (id_booking r \<noteq> k \<and> is_confirmed r \<and> classroom_id r = classroom_id new \<and>
         overlaps (interval_of r) (interval_of new))"
    using assms(1,2,3) clash_iff_overlap[of _ new]
    by (auto simp: clashing_row_def is_confirmed_def list_all_iff)
  have chk: "check_booking_conflicts tbl (classroom_id new) (booking_date new) (start_time new)
        (end_time new) (Some k)
       = (\<exists>r \<in> set tbl. id_booking r \<noteq> k \<and> is_confirmed r \<and>
            classroom_id r = classroom_id new \<and> overlaps (interval_of r) (interval_of new))"
    using check_own_row[of tbl new] row assms(3) by auto
  have upd: "update_booking tbl k new = Inr (map (\<lambda>r. if id_booking r = k then new else r) tbl)"
    if "\<forall>r \<in> set tbl. is_confirmed r \<and> classroom_id r = classroom_id new \<and>
          overlaps (interval_of r) (interval_of new) \<longrightarrow> id_booking r = k"
  proof -
    from that chk have "\<not> check_booking_conflicts tbl (classroom_id new) (booking_date new)
        (start_time new) (end_time new) (Some (id_booking new))"
      using assms(3) by auto
    then show ?thesis
      using assms(3,4) by (simp add: update_booking_def prevent_booking_conflicts_def)
  qed
  from check_exclude_delete chk upd show ?thesis by blast
qed

text \<open>
  In every table that the trigger has kept, an update that shrinks a confirmed
  reservation is accepted, whatever the other rows are.
\<close>

lemma time_clauses_within:
  assumes "s0 \<le> s" and "s < e" and "e \<le> e0" and "time_clauses s' e' s e"
  shows "time_clauses s' e' s0 e0"
  using assms unfolding time_clauses_def by auto

lemma shrink_accepted:
  assumes "trigger_inv tbl" and "r \<in> set tbl" and "is_confirmed r"
    and "id_booking new = id_booking r" and "classroom_id new = classroom_id r"
    and "booking_date new = booking_date r"
    and "start_time r \<le> start_time new" and "start_time new < end_time new"
    and "end_time new \<le> end_time r"
  shows "update_booking tbl (id_booking r) new
       = Inr (map (\<lambda>x. if id_booking x = id_booking r then new else x) tbl)"
proof -
  have "\<not> clashing_row new y" if "y \<in> set tbl" for y
  proof
    assume c: "clashing_row new y"
    then have "clash y r"
      using assms(5-9) time_clauses_within[of "start_time r" "start_time new" "end_time new"
          "end_time r" "start_time y" "end_time y"]
      by (auto simp: clashing_row_def clash_def)
    moreover have "id_booking y \<noteq> id_booking r" "is_confirmed y"
      using c assms(4) by (auto simp: clashing_row_def is_confirmed_def)
    ultimately show False
      using assms(1,2,3) that by (auto simp: trigger_inv_def)
  qed
  then have "prevent_booking_conflicts tbl new = Inr new"
    using prevent_cases[of tbl new] by (auto simp: prevent_conflict_iff)
  then show ?thesis
    using assms(2,4) by (simp add: update_booking_def)
qed

text \<open>
  C4. The claim is that the check with the id of a reservation excluded considers every
  confirmed reservation of the room but that one, so that an update which overlaps only
  the reservation's own prior interval succeeds. The exclusion works as claimed: against
  booking 1 alone the check finds nothing. But the table stores a row that ends before it
  starts, and the four clauses then find a conflict with a row that the new interval does
  not overlap: after the two inserts below, both accepted, the update of booking 1 to
  9:15-11:00 overlaps only its own prior interval and is rejected.
\<close>

theorem reversed_row_blocks_update:
  "run [] [Insert late_morning, Insert reversed] = [late_morning, reversed] \<and>
   end_time reversed < start_time reversed \<and>
   overlaps (interval_of late_morning) (interval_of widened) \<and>
   \<not> overlaps (interval_of reversed) (interval_of widened) \<and>
   \<not> check_booking_conflicts [late_morning] 7 100 (hm 9 15) (hm 11 0) (Some 1) \<and>
   check_booking_conflicts [late_morning, reversed] 7 100 (hm 9 15) (hm 11 0) (Some 1) \<and>
   update_booking [late_morning, reversed] 1 widened = Inl Booking_conflict"
proof -
  have a: "run [] [Insert late_morning, Insert reversed] = [late_morning, reversed]"
    by (simp add: late_morning_def reversed_def eval_simps)
  have b: "end_time reversed < start_time reversed"
    by (simp add: reversed_def mk_booking_def hm_def)
  have c: "overlaps (interval_of late_morning) (interval_of widened)"
    "\<not> overlaps (interval_of reversed) (interval_of widened)"
    by (simp_all add: late_morning_def reversed_def widened_def row_simps)
  have d: "\<not> check_booking_conflicts [late_morning] 7 100 (hm 9 15) (hm 11 0) (Some 1)"
    "check_booking_conflicts [late_morning, reversed] 7 100 (hm 9 15) (hm 11 0) (Some 1)"
    by (simp_all add: late_morning_def reversed_def eval_simps)
  have e: "update_booking [late_morning, reversed] 1 widened = Inl Booking_conflict"
    by (simp add: late_morning_def reversed_def widened_def eval_simps)
  from a b c d e show ?thesis by simp
qed

section \<open>Who may update or delete a booking\<close>

lemma bookings_policies_recurse:
  "policy_recursion schema_policies [] Update_stmt Bookings"
  "policy_recursion schema_policies [] Delete_stmt Bookings"
  by (simp_all add: schema_policies_def sublink_relations_def)

text \<open>
  C6. The claim is that an update or a cancel fails with Forbidden unless the requester
  owns the reservation or is an admin, and that an admin's succeeds. The policies are
  written to that end, but the one for admins on bookings selects from \<open>users\<close>, and
  the policy for admins on \<open>users\<close> selects from \<open>users\<close> again. For a role under
  row-level security every \<open>UPDATE\<close> and \<open>DELETE\<close> on bookings therefore ends with the
  error 42P17 before it reads a row, whoever the requester is. For the owner of the
  tables no policy applies, and the update and the delete of any booking go through.
\<close>

theorem policies_raise_for_every_requester:
  "rewrite_error schema_policies Rls_role Update_stmt Bookings = Some Infinite_recursion \<and>
   rewrite_error schema_policies Rls_role Delete_stmt Bookings = Some Infinite_recursion \<and>
   rewrite_error schema_policies Table_owner Update_stmt Bookings = None \<and>
   rewrite_error schema_policies Table_owner Delete_stmt Bookings = None \<and>
   update_booking room_day 1 shrunk
     = Inr [shrunk, mk_booking 2 7 3 100 (hm 10 0) (hm 11 0) ''confirmed''] \<and>
   delete_booking room_day 1 = [mk_booking 2 7 3 100 (hm 10 0) (hm 11 0) ''confirmed'']"
proof -
  have u: "update_booking room_day 1 shrunk
      = Inr [shrunk, mk_booking 2 7 3 100 (hm 10 0) (hm 11 0) ''confirmed'']"
    by (simp add: room_day_def shrunk_def eval_simps)
  have d: "delete_booking room_day 1 = [mk_booking 2 7 3 100 (hm 10 0) (hm 11 0) ''confirmed'']"
    by (simp add: room_day_def delete_booking_def mk_booking_def)
  have r: "rewrite_error schema_policies Rls_role Update_stmt Bookings = Some Infinite_recursion"
    "rewrite_error schema_policies Rls_role Delete_stmt Bookings = Some Infinite_recursion"
    "rewrite_error schema_policies Table_owner Update_stmt Bookings = None"
    "rewrite_error schema_policies Table_owner Delete_stmt Bookings = None"
    by (simp_all add: rewrite_error_def schema_policies_def sublink_relations_def)
  from r u d show ?thesis
    by simp
qed

section \<open>Deactivating a classroom\<close>

lemma deactivate_rows_ids:
  "map id_classroom (map (\<lambda>x. if id_classroom x = c then x\<lparr>is_active := a\<rparr> else x) cls)
     = map id_classroom cls"
  by (induction cls) simp_all

lemma deactivate_ids:
  "map id_classroom (classrooms (deactivate_classroom db c)) = map id_classroom (classrooms db)"
  by (simp add: deactivate_classroom_def deactivate_rows_ids)

lemma delete_classroom_cascades:
  "bookings (delete_classroom db c) = filter (\<lambda>b. classroom_id b \<noteq> c) (bookings db)"
  by (simp add: delete_classroom_def)

text \<open>
  C8, as amended. Deactivating a classroom leaves every booking, and every user,
  unchanged: no reservation is cancelled or deleted. It does not block new reservations:
  an insert of a booking for the classroom is accepted or rejected exactly as before the
  deactivation.
\<close>

theorem deactivation_keeps_bookings_and_admits:
  "bookings (deactivate_classroom db c) = bookings db \<and>
   users (deactivate_classroom db c) = users db \<and>
   map id_classroom (classrooms (deactivate_classroom db c)) = map id_classroom (classrooms db) \<and>
   db_insert_booking (deactivate_classroom db c) new
     = (case db_insert_booking db new of
          Inl e \<Rightarrow> Inl e
        | Inr db' \<Rightarrow> Inr (deactivate_classroom db' c))"
proof -
  have b: "bookings (deactivate_classroom db c) = bookings db"
    and u: "users (deactivate_classroom db c) = users db"
    by (simp_all add: deactivate_classroom_def)
  have i: "db_insert_booking (deactivate_classroom db c) new
     = (case db_insert_booking db new of
          Inl e \<Rightarrow> Inl e
        | Inr db' \<Rightarrow> Inr (deactivate_classroom db' c))"
  proof (cases "insert_booking (bookings db) new")
    case (Inl e)
    then show ?thesis by (simp add: db_insert_booking_def b)
  next
    case (Inr tbl)
    then show ?thesis
      unfolding db_insert_booking_def b u deactivate_ids
      by (simp add: deactivate_classroom_def)
  qed
  from b u deactivate_ids i show ?thesis by blast
qed

lemmas db_simps = db_insert_booking_def deactivate_classroom_def school_def late_def

text \<open>
  The claim as stated fails: after classroom 7 is deactivated, the insert of a new
  booking for it is accepted and stored.
\<close>

theorem insert_into_deactivated_room_counterexample:
  "classrooms (deactivate_classroom school 7) = [\<lparr>id_classroom = 7, is_active = Some False\<rparr>] \<and>
   db_insert_booking (deactivate_classroom school 7) late
     = Inr \<lparr>users = staff, classrooms = [\<lparr>id_classroom = 7, is_active = Some False\<rparr>],
            bookings = room_day @ [late]\<rparr>"
  by (simp add: db_simps room_day_def staff_def eval_simps)

theorem deactivation_keeps_bookings_and_admits_witness:
  "bookings (deactivate_classroom school 7) = room_day \<and>
   db_insert_booking school late = Inr (school\<lparr>bookings := room_day @ [late]\<rparr>) \<and>
   db_insert_booking (deactivate_classroom school 7) late
     = Inr (deactivate_classroom (school\<lparr>bookings := room_day @ [late]\<rparr>) 7)"
proof -
  have i: "db_insert_booking school late = Inr (school\<lparr>bookings := room_day @ [late]\<rparr>)"
    by (simp add: db_simps room_day_def staff_def eval_simps)
  have b: "bookings school = room_day"
    by (simp add: school_def)
  from deactivation_keeps_bookings_and_admits[of school 7 late] i b
  show ?thesis by simp
qed

section \<open>Intervals that end before they start\<close>

text \<open>
  C7. The claim is that an interval with \<open>end \<le> start\<close> is refused and never stored.
  The form that creates a booking refuses it. The form that edits a booking sends it on,
  and the bookings table, which declares no check on the two times, stores it: the
  update and the insert below are accepted.
\<close>

theorem end_before_start_is_stored:
  "handleBookingSubmit \<lparr>classroomId = Some 7, date_input = Some 100, startHour = 9, endHour = 8,
       teacher = ''Ana'', event = ''Physics''\<rparr>
     = Alert ''End time must be after start time.'' \<and>
   handleSave (Some 1) \<lparr>subject_f = ''Physics'', classroom_id_f = 7, date_f = 100,
       startTime = hm 9 0, endTime = hm 8 0\<rparr>
     = Some (1, \<lparr>classroom_id_req = 7, start_datetime = (100, hm 9 0),
                 end_datetime = (100, hm 8 0), subject_req = ''Physics'',
                 description_req = None\<rparr>) \<and>
   end_time backwards < start_time backwards \<and>
   update_booking room_day 1 backwards
     = Inr [backwards, mk_booking 2 7 3 100 (hm 10 0) (hm 11 0) ''confirmed''] \<and>
   insert_booking [] backwards = Inr [backwards]"
proof -
  have a: "handleBookingSubmit \<lparr>classroomId = Some 7, date_input = Some 100, startHour = 9,
       endHour = 8, teacher = ''Ana'', event = ''Physics''\<rparr>
     = Alert ''End time must be after start time.''"
    by (simp add: handleBookingSubmit_def)
  have b: "handleSave (Some 1) \<lparr>subject_f = ''Physics'', classroom_id_f = 7, date_f = 100,
       startTime = hm 9 0, endTime = hm 8 0\<rparr>
     = Some (1, \<lparr>classroom_id_req = 7, start_datetime = (100, hm 9 0),
                 end_datetime = (100, hm 8 0), subject_req = ''Physics'',
                 description_req = None\<rparr>)"
    by (simp add: handleSave_def)
  have c: "end_time backwards < start_time backwards"
    by (simp add: backwards_def mk_booking_def hm_def)
  have d: "update_booking room_day 1 backwards
     = Inr [backwards, mk_booking 2 7 3 100 (hm 10 0) (hm 11 0) ''confirmed'']"
    by (simp add: room_day_def backwards_def eval_simps)
  have e: "insert_booking [] backwards = Inr [backwards]"
    by (simp add: backwards_def eval_simps)
  from a b c d e show ?thesis by simp
qed

section \<open>A recurring series is created whole or not at all\<close>















end
